theory Spec2Isabelle
  imports Complex_Main "HOL-Library.Log_Nat"
begin

section \<open>Python values used by \<^verbatim>\<open>bot.py\<close>\<close>

text \<open>
  A Python \<^verbatim>\<open>str\<close> is a sequence of Unicode code points. The source strips the
  en dash (U+2013) and the em dash (U+2014), which do not fit in an 8-bit character, so
  a string is modelled as the list of its code points. \<open>py\<close> turns an ASCII literal
  into such a list.
\<close>

type_synonym pystr = "nat list"

definition py :: "string \<Rightarrow> pystr" where
  "py s = map of_char s"

text \<open>
  \<^verbatim>\<open>str.isspace\<close> for one code point: the table of CPython's
  \<^verbatim>\<open>_PyUnicode_IsWhitespace\<close>. Both \<^verbatim>\<open>str.strip()\<close> and the regular
  expression class \<^verbatim>\<open>\s\<close> (on a \<^verbatim>\<open>str\<close> pattern) use it.
\<close>

definition isspace :: "nat \<Rightarrow> bool" where
  "isspace c \<longleftrightarrow>
     (9 \<le> c \<and> c \<le> 13) \<or> (28 \<le> c \<and> c \<le> 32) \<or> c = 133 \<or> c = 160 \<or> c = 5760 \<or>
     (8192 \<le> c \<and> c \<le> 8202) \<or> c = 8232 \<or> c = 8233 \<or> c = 8239 \<or> c = 8287 \<or> c = 12288"

text \<open>\<^verbatim>\<open>s.lstrip(chars)\<close>, \<^verbatim>\<open>s.rstrip(chars)\<close> and \<^verbatim>\<open>s.strip(chars)\<close>, the
  character set given as a predicate.\<close>

definition lstrip_by :: "(nat \<Rightarrow> bool) \<Rightarrow> pystr \<Rightarrow> pystr" where
  "lstrip_by P s = dropWhile P s"

definition rstrip_by :: "(nat \<Rightarrow> bool) \<Rightarrow> pystr \<Rightarrow> pystr" where
  "rstrip_by P s = rev (dropWhile P (rev s))"

definition strip_by :: "(nat \<Rightarrow> bool) \<Rightarrow> pystr \<Rightarrow> pystr" where
  "strip_by P s = lstrip_by P (rstrip_by P s)"

text \<open>\<^verbatim>\<open>s.strip()\<close>: whitespace on both sides.\<close>

definition strip :: "pystr \<Rightarrow> pystr" where
  "strip s = strip_by isspace s"

text \<open>The separator \<^verbatim>\<open>"|"\<close> (U+007C).\<close>

definition bar :: nat where
  "bar = 124"

text \<open>
  \<^verbatim>\<open>re.sub(r"^/r\s*", "", text, flags=re.IGNORECASE)\<close>. Without
  \<^verbatim>\<open>re.MULTILINE\<close> the anchor matches at the start of the string only, so there is at
  most one match: a slash (U+002F), then \<^verbatim>\<open>r\<close> (U+0072) or \<^verbatim>\<open>R\<close> (U+0052),
  the only code points that match \<^verbatim>\<open>r\<close> when case is ignored, then the longest
  run of whitespace. The match is replaced by the empty string.
\<close>

definition sub_command :: "pystr \<Rightarrow> pystr" where
  "sub_command s =
     (case s of
        c1 # c2 # rest \<Rightarrow>
          if c1 = 47 \<and> (c2 = 114 \<or> c2 = 82) then dropWhile isspace rest else s
      | _ \<Rightarrow> s)"

text \<open>\<^verbatim>\<open>text.split("|", 1)\<close>: one part when the separator does not occur, otherwise
  the text before the first separator and the text after it.\<close>

definition split1 :: "nat \<Rightarrow> pystr \<Rightarrow> pystr list" where
  "split1 sep s =
     (if sep \<in> set s
      then [takeWhile (\<lambda>c. c \<noteq> sep) s, tl (dropWhile (\<lambda>c. c \<noteq> sep) s)]
      else [s])"

text \<open>
  \<^verbatim>\<open>text.replace(old, "")\<close>: scanning from the left, every occurrence of
  \<open>old\<close> that does not overlap an earlier one is removed. With an empty \<open>old\<close>
  Python inserts the replacement between the characters, which for the empty
  replacement leaves the text as it is.
\<close>

function replace_empty :: "pystr \<Rightarrow> pystr \<Rightarrow> pystr" where
  "replace_empty old [] = []"
| "replace_empty old (c # cs) =
     (if old \<noteq> [] \<and> take (length old) (c # cs) = old
      then replace_empty old (drop (length old) (c # cs))
      else c # replace_empty old cs)"
  by pat_completeness auto
termination
  by (relation "measure (\<lambda>(old, s). length s)") auto

text \<open>The seven characters given to \<^verbatim>\<open>strip\<close> in the fallback: space, comma,
  hyphen-minus, en dash (U+2013), em dash (U+2014), colon, semicolon.\<close>

definition trim_char :: "nat \<Rightarrow> bool" where
  "trim_char c \<longleftrightarrow> c = 32 \<or> c = 44 \<or> c = 45 \<or> c = 8211 \<or> c = 8212 \<or> c = 58 \<or> c = 59"

text \<open>\<^verbatim>\<open>str(n)\<close> for an integer, as an f-string field prints it.\<close>

fun str_nat :: "nat \<Rightarrow> pystr" where
  "str_nat n = (if n < 10 then [48 + n] else str_nat (n div 10) @ [48 + n mod 10])"

definition str_int :: "int \<Rightarrow> pystr" where
  "str_int i = (if i < 0 then 45 # str_nat (nat (- i)) else str_nat (nat i))"

subsection \<open>Dates and times\<close>

text \<open>
  An aware \<^verbatim>\<open>datetime\<close>: the wall-clock reading, counted in microseconds from
  1970-01-01T00:00:00 on the same wall clock, and the offset of its time zone from UTC
  in microseconds. The parser is called with \<^verbatim>\<open>RETURN_AS_TIMEZONE_AWARE\<close>, so every
  value it returns is aware. The bounds of the type (years 1 to 9999) are left out:
  the count is an unbounded integer.
\<close>

record datetime =
  wall :: int
  utcoffset :: int

text \<open>Microseconds since the epoch 1970-01-01T00:00:00+00:00.\<close>

definition instant :: "datetime \<Rightarrow> int" where
  "instant d = wall d - utcoffset d"

text \<open>\<^verbatim>\<open>dt.astimezone(timezone.utc)\<close>: the same instant, read on the UTC clock.\<close>

definition astimezone_utc :: "datetime \<Rightarrow> datetime" where
  "astimezone_utc d = \<lparr>wall = wall d - utcoffset d, utcoffset = 0\<rparr>"

text \<open>\<^verbatim>\<open>a - b\<close> for two aware values: a \<^verbatim>\<open>timedelta\<close>, here its exact length in
  microseconds.\<close>

definition dt_sub :: "datetime \<Rightarrow> datetime \<Rightarrow> int" where
  "dt_sub a b = (wall a - utcoffset a) - (wall b - utcoffset b)"

text \<open>
  Python's \<^verbatim>\<open>n / d\<close> on integers is the IEEE-754 double nearest to the exact
  quotient, ties to the even significand. \<open>truediv\<close> is the value of that double, as
  a rational, for a positive divisor: the significand is the quotient scaled into
  \<open>[2^52, 2^53]\<close> and rounded. Subnormal results and overflow are not modelled; with
  the divisor \<open>10^6\<close> they need a numerator beyond \<open>10^313\<close>.
\<close>

definition round_half_even :: "int \<Rightarrow> int \<Rightarrow> int" where
  "round_half_even n d =
     (let f = n div d; r = n mod d
      in if 2 * r < d then f else if d < 2 * r then f + 1 else if even f then f else f + 1)"

text \<open>The integer \<open>e\<close> with \<open>2^e \<le> n / d < 2^(e+1)\<close>, for positive \<open>n\<close> and \<open>d\<close>.\<close>

definition binade :: "int \<Rightarrow> int \<Rightarrow> int" where
  "binade n d =
     (let s = bitlen n - bitlen d
      in if d * 2 ^ nat s \<le> n * 2 ^ nat (- s) then s else s - 1)"

definition truediv :: "int \<Rightarrow> int \<Rightarrow> rat" where
  "truediv n d =
     (if n = 0 then 0
      else
        let a = \<bar>n\<bar>;
            k = binade a d - 52;
            m = (if 0 \<le> k then round_half_even a (d * 2 ^ nat k)
                 else round_half_even (a * 2 ^ nat (- k)) d)
        in of_int (sgn n * m) * (if 0 \<le> k then 2 ^ nat k else 1 / 2 ^ nat (- k)))"

text \<open>\<^verbatim>\<open>td.total_seconds()\<close>: the microseconds of the \<^verbatim>\<open>timedelta\<close> divided by
  \<open>10^6\<close>, as a float.\<close>

definition total_seconds :: "int \<Rightarrow> rat" where
  "total_seconds us = truediv us 1000000"

text \<open>\<^verbatim>\<open>dt.timestamp()\<close> of an aware value: \<^verbatim>\<open>(dt - EPOCH).total_seconds()\<close>.\<close>

definition timestamp :: "datetime \<Rightarrow> rat" where
  "timestamp d = total_seconds (instant d)"

text \<open>\<^verbatim>\<open>int(x)\<close> of a float: truncation towards zero.\<close>

definition int_of_float :: "rat \<Rightarrow> int" where
  "int_of_float x = (if 0 \<le> x then \<lfloor>x\<rfloor> else \<lceil>x\<rceil>)"

section \<open>The collaborators of the bot\<close>

text \<open>
  The bot calls four things it does not define; each is a parameter of the model.
  \<^item> \<^verbatim>\<open>dateparser.parse(s, languages=["fr"], settings=...)\<close>: a \<^verbatim>\<open>datetime\<close>,
    or \<^verbatim>\<open>None\<close> when the phrase is not understood.
  \<^item> \<^verbatim>\<open>search_dates(s, languages=["fr"], settings=...)\<close>: \<^verbatim>\<open>None\<close>, or the list
    of the phrases found, each with its \<^verbatim>\<open>datetime\<close>.
  \<^item> \<^verbatim>\<open>context.job_queue.run_once(callback, when=, data=, name=)\<close>: registers a
    job with the timer, or raises. The timer's state is a type parameter \<open>'q\<close>; what
    it raises is a value of \<open>'e\<close>.
  \<^item> The confirmation of lines 106 and 107: \<^verbatim>\<open>when_utc.astimezone().strftime(...)\<close>
    renders the instant on the local clock of the machine, and
    \<^verbatim>\<open>update.message.reply_text(...)\<close> sends the text built from the matched phrase,
    that rendering and the message. Either call can raise (the first with
    \<^verbatim>\<open>OverflowError\<close>, the second when the transport fails): the result is
    \<^verbatim>\<open>None\<close> when the confirmation was sent and the exception otherwise.
\<close>

type_synonym date_parser = "pystr \<Rightarrow> datetime option"

type_synonym date_search = "pystr \<Rightarrow> (pystr \<times> datetime) list option"

text \<open>The keyword arguments of \<^verbatim>\<open>run_once\<close>. The callback is always
  \<^verbatim>\<open>_send_reminder\<close>, which sends \<^verbatim>\<open>data["msg"]\<close> to \<^verbatim>\<open>data["chat_id"]\<close>.\<close>

record job =
  job_when :: rat
  data_chat_id :: int
  data_msg :: pystr
  job_name :: pystr

type_synonym ('q, 'e) timer = "'q \<Rightarrow> job \<Rightarrow> 'e + 'q"

type_synonym 'e confirmer = "pystr \<Rightarrow> datetime \<Rightarrow> pystr \<Rightarrow> 'e option"

text \<open>What the \<^verbatim>\<open>try\<close> block of \<^verbatim>\<open>r_cmd\<close> can raise: a \<^verbatim>\<open>ValueError\<close> of the
  bot's own, with its message; whatever \<^verbatim>\<open>run_once\<close> raised; or whatever lines 106
  and 107 raised.\<close>

datatype 'e exn = ValueError pystr | TimerError 'e | ConfirmError 'e

text \<open>The four messages. \<open>233\<close> is e with acute accent, \<open>224\<close> a with grave
  accent.\<close>

definition msg_vide :: pystr where
  "msg_vide = py ''Message vide.''"

definition non_comprise :: pystr where
  "non_comprise = py ''Date/heure non comprise.''"

definition non_trouvee :: pystr where
  "non_trouvee = py ''Date/heure non trouv'' @ [233] @ py ''e.''"

definition trop_proche :: pystr where
  "trop_proche =
     py ''La date/heure est trop proche ou d'' @ [233, 106, 224] @ py '' pass'' @ [233] @ py ''e.''"

text \<open>The two replies of \<^verbatim>\<open>r_cmd\<close>: the confirmation, built from the matched
  phrase, the instant (rendered in local time) and the message; and the fixed
  "Je n'ai pas compris" text followed by the help.\<close>

datatype reply = Confirmation pystr datetime pystr | PasCompris

section \<open>\<^verbatim>\<open>_parse_when_and_message\<close>\<close>

text \<open>Lines 35 and 36: the text with the command and the surrounding whitespace
  removed.\<close>

definition command_text :: "pystr \<Rightarrow> pystr" where
  "command_text raw = strip (sub_command (strip raw))"

definition parse_when_and_message ::
  "date_parser \<Rightarrow> date_search \<Rightarrow> pystr \<Rightarrow> 'e exn + (datetime \<times> pystr \<times> pystr)" where
  "parse_when_and_message dateparser_parse search_dates raw =
     (let text = command_text raw
      in if bar \<in> set text
         then
           (case map strip (split1 bar text) of
              [when_part, msg] \<Rightarrow>
                if msg = [] then Inl (ValueError msg_vide)
                else
                  (case dateparser_parse when_part of
                     None \<Rightarrow> Inl (ValueError non_comprise)
                   | Some dt \<Rightarrow> Inr (astimezone_utc dt, when_part, msg))
            | _ \<Rightarrow> Inl (ValueError (py ''not enough values to unpack (expected 2, got 1)'')))
         else
           (case search_dates text of
              None \<Rightarrow> Inl (ValueError non_trouvee)
            | Some [] \<Rightarrow> Inl (ValueError non_trouvee)
            | Some ((match_text, dt) # _) \<Rightarrow>
                (let msg = strip_by trim_char (replace_empty match_text text);
                     msg = (if msg = [] then py ''Rappel'' else msg)
                 in Inr (astimezone_utc dt, match_text, msg))))"

section \<open>\<^verbatim>\<open>r_cmd\<close>\<close>

text \<open>The arguments of the call of \<^verbatim>\<open>run_once\<close> at lines 98 to 103.\<close>

definition reminder_job :: "int \<Rightarrow> datetime \<Rightarrow> rat \<Rightarrow> pystr \<Rightarrow> job" where
  "reminder_job chat_id when_utc delay_seconds msg =
     \<lparr>job_when = delay_seconds,
      data_chat_id = chat_id,
      data_msg = msg,
      job_name =
        py ''reminder-'' @ str_int chat_id @ py ''-''
          @ str_int (int_of_float (timestamp when_utc))\<rparr>"

text \<open>
  The body of the \<^verbatim>\<open>try\<close> block, lines 89 to 107. \<open>now_utc\<close> is what
  \<^verbatim>\<open>datetime.now(timezone.utc)\<close> returns, \<open>chat_id\<close> is
  \<^verbatim>\<open>update.effective_chat.id\<close>, \<open>raw\<close> is \<^verbatim>\<open>update.message.text\<close> and \<open>q\<close> the
  state of the timer. The result is the state of the timer when the block is left, with
  the exception that left it or the confirmation sent. An exception of \<^verbatim>\<open>run_once\<close>
  is taken to leave the timer as it was; an exception of line 106 or 107 comes after the
  registration and leaves the job with the timer.
\<close>

definition r_cmd_try ::
  "('q, 'e) timer \<Rightarrow> 'e confirmer \<Rightarrow> date_parser \<Rightarrow> date_search \<Rightarrow> datetime \<Rightarrow> int
     \<Rightarrow> pystr \<Rightarrow> 'q \<Rightarrow> 'q \<times> ('e exn + reply)" where
  "r_cmd_try run_once confirm dateparser_parse search_dates now_utc chat_id raw q =
     (case parse_when_and_message dateparser_parse search_dates raw of
        Inl e \<Rightarrow> (q, Inl e)
      | Inr (when_utc, human_when, msg) \<Rightarrow>
          (let delay_seconds = total_seconds (dt_sub when_utc now_utc)
           in if delay_seconds < 5 then (q, Inl (ValueError trop_proche))
              else
                (case run_once q (reminder_job chat_id when_utc delay_seconds msg) of
                   Inl e \<Rightarrow> (q, Inl (TimerError e))
                 | Inr q' \<Rightarrow>
                     (case confirm human_when when_utc msg of
                        Some e \<Rightarrow> (q', Inl (ConfirmError e))
                      | None \<Rightarrow> (q', Inr (Confirmation human_when when_utc msg))))))"

text \<open>The handler: \<^verbatim>\<open>except Exception\<close> answers every exception of the block with
  the one reply of line 110, whatever the block had done before. That reply is taken to
  deliver: line 110 is outside the \<^verbatim>\<open>try\<close>, and an exception there would leave
  \<^verbatim>\<open>r_cmd\<close>.\<close>

definition r_cmd ::
  "('q, 'e) timer \<Rightarrow> 'e confirmer \<Rightarrow> date_parser \<Rightarrow> date_search \<Rightarrow> datetime \<Rightarrow> int
     \<Rightarrow> pystr \<Rightarrow> 'q \<Rightarrow> 'q \<times> reply" where
  "r_cmd run_once confirm dateparser_parse search_dates now_utc chat_id raw q =
     (case r_cmd_try run_once confirm dateparser_parse search_dates now_utc chat_id raw q of
        (q', Inl e) \<Rightarrow> (q', PasCompris)
      | (q', Inr confirmation) \<Rightarrow> (q', confirmation))"

section \<open>Stand-ins for the collaborators\<close>

text \<open>
  Concrete collaborators on which the theorems are run: a parser that understands the
  one phrase \<^verbatim>\<open>demain 14h\<close> (2025-11-06 14:00 in Paris, one hour ahead of UTC), and a
  search that finds it in three texts, in one of them before \<^verbatim>\<open>lundi 9h\<close>
  (2025-11-10 09:00 in Paris).
\<close>

definition demain_14h :: datetime where
  "demain_14h = \<lparr>wall = 1762437600000000, utcoffset = 3600000000\<rparr>"

definition lundi_9h :: datetime where
  "lundi_9h = \<lparr>wall = 1762765200000000, utcoffset = 3600000000\<rparr>"

definition stub_parse :: date_parser where
  "stub_parse s = (if s = py ''demain 14h'' then Some demain_14h else None)"

definition stub_search :: date_search where
  "stub_search s =
     (if s = py ''demain 14h'' \<or> s = py ''appeler le garage, demain 14h''
      then Some [(py ''demain 14h'', demain_14h)]
      else if s = py ''demain 14h ou lundi 9h: payer''
      then Some [(py ''demain 14h'', demain_14h), (py ''lundi 9h'', lundi_9h)]
      else None)"

text \<open>A clock reading, 2025-11-05 10:00 UTC; a timer that registers every job it is
  given, keeping the jobs in the order of the calls; a timer that raises on every
  call; a confirmation that is always sent, and one that always raises.\<close>

definition now_10h :: datetime where
  "now_10h = \<lparr>wall = 1762336800000000, utcoffset = 0\<rparr>"

definition accepting_timer :: "(job list, unit) timer" where
  "accepting_timer q j = Inr (q @ [j])"

definition refusing_timer :: "(job list, unit) timer" where
  "refusing_timer q j = Inl ()"

definition delivering :: "unit confirmer" where
  "delivering human_when when_utc msg = None"

definition overflowing :: "unit confirmer" where
  "overflowing human_when when_utc msg = Some ()"

text \<open>A search that finds nothing.\<close>

definition no_search :: date_search where
  "no_search s = None"

section \<open>Stripping and splitting\<close>

lemma not_isspace_bar: "\<not> isspace bar"
  by (simp add: isspace_def bar_def)

lemma lstrip_by_keep: "\<not> P c \<Longrightarrow> lstrip_by P (a @ c # b) = lstrip_by P a @ c # b"
  by (simp add: lstrip_by_def dropWhile_append3)

lemma rstrip_by_keep: "\<not> P c \<Longrightarrow> rstrip_by P (a @ c # b) = a @ c # rstrip_by P b"
  by (simp add: rstrip_by_def dropWhile_append3)

lemma strip_by_keep: "\<not> P c \<Longrightarrow> strip_by P (a @ c # b) = lstrip_by P a @ c # rstrip_by P b"
  by (simp add: strip_by_def rstrip_by_keep lstrip_by_keep)

lemma rstrip_by_idem: "rstrip_by P (rstrip_by P s) = rstrip_by P s"
  by (simp add: rstrip_by_def)

lemma lstrip_by_idem: "lstrip_by P (lstrip_by P s) = lstrip_by P s"
  by (simp add: lstrip_by_def)

lemma rstrip_by_Cons:
  "rstrip_by P (c # s) = (if rstrip_by P s = [] \<and> P c then [] else c # rstrip_by P s)"
proof (cases "\<forall>x\<in>set s. P x")
  case True
  then have "dropWhile P (rev s @ [c]) = dropWhile P [c]"
    by (intro dropWhile_append2) simp
  moreover from True have "rstrip_by P s = []"
    by (simp add: rstrip_by_def dropWhile_eq_Nil_conv)
  ultimately show ?thesis
    by (simp add: rstrip_by_def)
next
  case False
  then obtain x where x: "x \<in> set (rev s)" "\<not> P x" by auto
  then have "dropWhile P (rev s @ [c]) = dropWhile P (rev s) @ [c]"
    by (rule dropWhile_append1)
  moreover from False have "rstrip_by P s \<noteq> []"
    by (simp add: rstrip_by_def dropWhile_eq_Nil_conv)
  ultimately show ?thesis
    by (simp add: rstrip_by_def)
qed

lemma strip_by_commute: "lstrip_by P (rstrip_by P s) = rstrip_by P (lstrip_by P s)"
proof (induction s)
  case Nil
  then show ?case by (simp add: lstrip_by_def rstrip_by_def)
next
  case (Cons c s)
  show ?case
  proof (cases "P c")
    case True
    have "lstrip_by P (rstrip_by P (c # s)) = lstrip_by P (rstrip_by P s)"
      using True by (simp add: rstrip_by_Cons) (simp add: lstrip_by_def)
    also have "\<dots> = rstrip_by P (lstrip_by P (c # s))"
      using True Cons.IH by (simp add: lstrip_by_def)
    finally show ?thesis .
  next
    case False
    then show ?thesis
      by (simp add: rstrip_by_Cons) (simp add: lstrip_by_def rstrip_by_Cons)
  qed
qed

lemma sub_command_bar: "sub_command (a @ bar # b) = sub_command a @ bar # b"
proof (cases a)
  case Nil
  then show ?thesis by (cases b) (simp_all add: sub_command_def bar_def)
next
  case (Cons x a')
  have "\<not> isspace 124" by (simp add: isspace_def)
  with Cons show ?thesis
    by (cases a') (auto simp: sub_command_def bar_def dropWhile_append3)
qed

lemma set_sub_command: "set (sub_command s) \<subseteq> set s"
  by (auto simp: sub_command_def split: list.splits dest: set_dropWhileD)

lemma set_lstrip_by: "set (lstrip_by P s) \<subseteq> set s"
  by (auto simp: lstrip_by_def dest: set_dropWhileD)

lemma set_rstrip_by: "set (rstrip_by P s) \<subseteq> set s"
  by (auto simp: rstrip_by_def dest: set_dropWhileD)

lemma split1_first: "sep \<notin> set x \<Longrightarrow> split1 sep (x @ sep # y) = [x, y]"
  by (induction x) (auto simp: split1_def)

lemma rstrip_sub_command: "rstrip_by isspace (sub_command s) = sub_command (rstrip_by isspace s)"
proof (cases s)
  case Nil
  then show ?thesis by (simp add: sub_command_def rstrip_by_def)
next
  case s1: (Cons c1 s')
  show ?thesis
  proof (cases s')
    case Nil
    with s1 show ?thesis by (simp add: sub_command_def rstrip_by_Cons) (simp add: rstrip_by_def)
  next
    case s2: (Cons c2 rest)
    show ?thesis
    proof (cases "c1 = 47 \<and> (c2 = 114 \<or> c2 = 82)")
      case True
      then have ns: "\<not> isspace c1" "\<not> isspace c2" by (auto simp: isspace_def)
      have "rstrip_by isspace s = c1 # c2 # rstrip_by isspace rest"
        using ns s1 s2 by (simp add: rstrip_by_Cons)
      then have "sub_command (rstrip_by isspace s) = lstrip_by isspace (rstrip_by isspace rest)"
        using True by (simp add: sub_command_def lstrip_by_def)
      moreover have "sub_command s = lstrip_by isspace rest"
        using True s1 s2 by (simp add: sub_command_def lstrip_by_def)
      ultimately show ?thesis by (simp add: strip_by_commute)
    next
      case False
      then have a: "sub_command s = s" using s1 s2 by (auto simp: sub_command_def)
      have "rstrip_by isspace s = [] \<or> rstrip_by isspace s = [c1]
          \<or> rstrip_by isspace s = c1 # c2 # rstrip_by isspace rest"
        using s1 s2 by (simp add: rstrip_by_Cons)
      then have "sub_command (rstrip_by isspace s) = rstrip_by isspace s"
        using False by (auto simp: sub_command_def)
      with a show ?thesis by simp
    qed
  qed
qed

lemma command_text_bar:
  "command_text (a @ bar # b) =
     lstrip_by isspace (sub_command (lstrip_by isspace a)) @ bar # rstrip_by isspace b"
  by (simp add: command_text_def strip_def strip_by_keep not_isspace_bar sub_command_bar
      rstrip_by_idem)

lemma strip_rstrip: "strip (rstrip_by isspace s) = strip s"
  by (simp add: strip_def strip_by_def rstrip_by_idem)

lemma when_part_eq:
  "strip (lstrip_by isspace (sub_command (lstrip_by isspace a))) = command_text a"
proof -
  have "command_text a
      = lstrip_by isspace (rstrip_by isspace (sub_command (lstrip_by isspace (rstrip_by isspace a))))"
    by (simp add: command_text_def strip_def strip_by_def)
  also have "\<dots> = lstrip_by isspace (rstrip_by isspace (sub_command (lstrip_by isspace a)))"
    by (simp add: strip_by_commute [of isspace a] rstrip_sub_command [symmetric] rstrip_by_idem)
  finally have c: "command_text a
      = lstrip_by isspace (rstrip_by isspace (sub_command (lstrip_by isspace a)))" .
  have "strip (lstrip_by isspace (sub_command (lstrip_by isspace a)))
      = lstrip_by isspace (rstrip_by isspace (sub_command (lstrip_by isspace a)))"
    by (simp add: strip_def strip_by_def strip_by_commute lstrip_by_idem)
  with c show ?thesis by simp
qed

lemma strip_by_decomp:
  "\<exists>u v. s = u @ strip_by P s @ v \<and> (\<forall>c\<in>set u. P c) \<and> (\<forall>c\<in>set v. P c)"
proof -
  let ?t = "rstrip_by P s"
  have "rev (rev s) = rev (takeWhile P (rev s) @ dropWhile P (rev s))"
    by (simp only: takeWhile_dropWhile_id)
  then have 1: "s = ?t @ rev (takeWhile P (rev s))"
    by (simp only: rev_rev_ident rev_append rstrip_by_def)
  have 2: "?t = takeWhile P ?t @ strip_by P s" by (simp add: strip_by_def lstrip_by_def)
  have "s = takeWhile P ?t @ strip_by P s @ rev (takeWhile P (rev s))"
    using 1 2 by (metis append.assoc)
  moreover have "\<forall>c\<in>set (takeWhile P ?t). P c" by (auto dest: set_takeWhileD)
  moreover have "\<forall>c\<in>set (rev (takeWhile P (rev s))). P c" by (auto dest: set_takeWhileD)
  ultimately show ?thesis by blast
qed

lemma set_command_text: "set (command_text raw) \<subseteq> set raw"
proof -
  have "set (strip s) \<subseteq> set s" for s
    using set_lstrip_by [of isspace "rstrip_by isspace s"] set_rstrip_by [of isspace s]
    by (auto simp: strip_def strip_by_def)
  then show ?thesis
    unfolding command_text_def
    by (meson set_sub_command subset_trans)
qed

lemma explicit_mode:
  assumes "bar \<notin> set a"
  shows "parse_when_and_message dateparser_parse search_dates (a @ bar # b) =
     (if strip b = [] then Inl (ValueError msg_vide)
      else
        (case dateparser_parse (command_text a) of
           None \<Rightarrow> Inl (ValueError non_comprise)
         | Some dt \<Rightarrow> Inr (astimezone_utc dt, command_text a, strip b)))"
proof -
  let ?A = "lstrip_by isspace (sub_command (lstrip_by isspace a))"
  have t: "command_text (a @ bar # b) = ?A @ bar # rstrip_by isspace b"
    by (rule command_text_bar)
  have "set ?A \<subseteq> set a"
    using set_lstrip_by set_sub_command by (meson subset_trans)
  with assms have "bar \<notin> set ?A" by auto
  then have "split1 bar (command_text (a @ bar # b)) = [?A, rstrip_by isspace b]"
    by (simp add: t split1_first)
  then have m: "map strip (split1 bar (command_text (a @ bar # b))) = [command_text a, strip b]"
    by (simp add: when_part_eq strip_rstrip)
  have "bar \<in> set (command_text (a @ bar # b))"
    by (simp add: t)
  then show ?thesis
    by (simp add: parse_when_and_message_def m)
qed

lemma fallback_mode:
  assumes "bar \<notin> set raw"
  shows "parse_when_and_message dateparser_parse search_dates raw =
     (case search_dates (command_text raw) of
        None \<Rightarrow> Inl (ValueError non_trouvee)
      | Some [] \<Rightarrow> Inl (ValueError non_trouvee)
      | Some ((match_text, dt) # rest) \<Rightarrow>
          Inr (astimezone_utc dt, match_text,
               if strip_by trim_char (replace_empty match_text (command_text raw)) = []
               then py ''Rappel''
               else strip_by trim_char (replace_empty match_text (command_text raw))))"
proof -
  from assms set_command_text have "bar \<notin> set (command_text raw)" by blast
  then show ?thesis
    by (simp add: parse_when_and_message_def Let_def split: option.splits list.splits)
qed

section \<open>The explicit format\<close>

lemmas str_eval = py_def command_text_def strip_def strip_by_def lstrip_by_def rstrip_by_def
  isspace_def sub_command_def split1_def bar_def trim_char_def

text \<open>
  Claim C2. Let the input hold a separator, \<open>a\<close> being the text before the first one
  and \<open>b\<close> the text after it. If the parser accepts the phrase before the separator
  (\<open>a\<close> without the command and the surrounding whitespace) and \<open>b\<close> is not empty
  once trimmed, the parse succeeds and the message is exactly \<open>b\<close> with the whitespace
  on both sides removed.
\<close>

theorem explicit_message:
  assumes "bar \<notin> set a"
    and "dateparser_parse (command_text a) = Some dt"
    and "strip b \<noteq> []"
  shows "parse_when_and_message dateparser_parse search_dates (a @ bar # b) =
           Inr (astimezone_utc dt, command_text a, strip b)"
  using assms by (simp add: explicit_mode)

theorem explicit_message_witness:
  "bar \<notin> set (py ''/r demain 14h '')
   \<and> stub_parse (command_text (py ''/r demain 14h '')) = Some demain_14h
   \<and> strip (py '' appeler le garage  '') \<noteq> []
   \<and> (parse_when_and_message stub_parse stub_search
        (py ''/r demain 14h '' @ bar # py '' appeler le garage  '') :: unit exn + _) =
       Inr (\<lparr>wall = 1762434000000000, utcoffset = 0\<rparr>, py ''demain 14h'', py ''appeler le garage'')"
proof -
  have 1: "bar \<notin> set (py ''/r demain 14h '')"
    by (simp add: str_eval)
  have 2: "stub_parse (command_text (py ''/r demain 14h '')) = Some demain_14h"
    by (simp add: str_eval stub_parse_def)
  have 3: "strip (py '' appeler le garage  '') \<noteq> []"
    by (simp add: str_eval)
  have 4: "command_text (py ''/r demain 14h '') = py ''demain 14h''"
    by (simp add: str_eval)
  have 5: "strip (py '' appeler le garage  '') = py ''appeler le garage''"
    by (simp add: str_eval)
  show ?thesis
    using explicit_message [where a = "py ''/r demain 14h ''" and dateparser_parse = stub_parse
        and dt = demain_14h and b = "py '' appeler le garage  ''" and search_dates = stub_search]
      1 2 3
    by (simp add: 4 5 astimezone_utc_def demain_14h_def)
qed

text \<open>
  Claim C7. If the text after the first separator is blank once trimmed, the parse
  fails with the \<^verbatim>\<open>ValueError\<close> "Message vide." (the empty-message error), whatever
  the parser makes of the text before the separator.
\<close>

theorem empty_message:
  assumes "bar \<notin> set a" and "strip b = []"
  shows "parse_when_and_message dateparser_parse search_dates (a @ bar # b) =
           Inl (ValueError msg_vide)"
  using assms by (simp add: explicit_mode)

theorem empty_message_witness:
  "bar \<notin> set (py ''/r demain 14h '') \<and> strip (py ''   '') = []
   \<and> (parse_when_and_message stub_parse stub_search (py ''/r demain 14h '' @ bar # py ''   '')
        :: unit exn + _) = Inl (ValueError msg_vide)
   \<and> bar \<notin> set (py ''/r banana'') \<and> strip [] = []
   \<and> (parse_when_and_message stub_parse stub_search (py ''/r banana'' @ bar # [])
        :: unit exn + _) = Inl (ValueError msg_vide)"
proof -
  have 1: "bar \<notin> set (py ''/r demain 14h '')" by (simp add: str_eval)
  have 2: "strip (py ''   '') = []" by (simp add: str_eval)
  have 3: "bar \<notin> set (py ''/r banana'')" by (simp add: str_eval)
  have 4: "strip [] = []" by (simp add: str_eval)
  show ?thesis
    using empty_message [where a = "py ''/r demain 14h ''" and b = "py ''   ''"
        and dateparser_parse = stub_parse and search_dates = stub_search]
      empty_message [where a = "py ''/r banana''" and b = "[]"
        and dateparser_parse = stub_parse and search_dates = stub_search] 1 2 3 4
    by simp
qed

lemma strip_decomp:
  "\<exists>u v. s = u @ strip s @ v \<and> (\<forall>c\<in>set u. isspace c) \<and> (\<forall>c\<in>set v. isspace c)"
  unfolding strip_def by (rule strip_by_decomp)

lemma bar_in_strip: "bar \<in> set b \<Longrightarrow> bar \<in> set (strip b)"
proof -
  assume b: "bar \<in> set b"
  obtain u v where d: "b = u @ strip b @ v" "\<forall>c\<in>set u. isspace c" "\<forall>c\<in>set v. isspace c"
    using strip_decomp by blast
  from d(2,3) not_isspace_bar have "bar \<notin> set u" "bar \<notin> set v" by auto
  moreover from b d(1) have "bar \<in> set u \<union> set (strip b) \<union> set v"
    by (metis set_append Un_assoc)
  ultimately show ?thesis by blast
qed

text \<open>
  Claim C10. When the input holds more than one separator, it is cut at the first one
  only: with \<open>a\<close> the text before the first separator and \<open>b\<close> the text after it
  (\<open>b\<close> holding the further separators), only \<open>a\<close>, without the command and the
  surrounding whitespace, goes to the parser and it holds no separator; the message is
  \<open>b\<close> itself between two runs of whitespace that are dropped, separators included.
\<close>

theorem first_separator_only:
  assumes "bar \<notin> set a" and "bar \<in> set b"
  shows "(parse_when_and_message dateparser_parse search_dates (a @ bar # b) :: 'e exn + _) =
           (case dateparser_parse (command_text a) of
              None \<Rightarrow> Inl (ValueError non_comprise)
            | Some dt \<Rightarrow> Inr (astimezone_utc dt, command_text a, strip b))
         \<and> bar \<notin> set (command_text a)
         \<and> bar \<in> set (strip b)
         \<and> (\<exists>u v. b = u @ strip b @ v \<and> list_all isspace u \<and> list_all isspace v)"
proof -
  from assms(2) have s: "bar \<in> set (strip b)" by (rule bar_in_strip)
  then have "strip b \<noteq> []" by auto
  then have 1: "(parse_when_and_message dateparser_parse search_dates (a @ bar # b) :: 'e exn + _) =
           (case dateparser_parse (command_text a) of
              None \<Rightarrow> Inl (ValueError non_comprise)
            | Some dt \<Rightarrow> Inr (astimezone_utc dt, command_text a, strip b))"
    using assms(1) by (simp add: explicit_mode)
  have 2: "bar \<notin> set (command_text a)"
    using assms(1) set_command_text by blast
  have 3: "\<exists>u v. b = u @ strip b @ v \<and> list_all isspace u \<and> list_all isspace v"
    using strip_decomp [of b] by (simp add: list_all_iff)
  from 1 2 s 3 show ?thesis by blast
qed

theorem first_separator_only_witness:
  "bar \<notin> set (py ''/r demain 14h '') \<and> bar \<in> set (py '' a | b '')
   \<and> (parse_when_and_message stub_parse stub_search (py ''/r demain 14h | a | b '')
        :: unit exn + _) =
       Inr (\<lparr>wall = 1762434000000000, utcoffset = 0\<rparr>, py ''demain 14h'', py ''a | b'')"
proof -
  have 1: "bar \<notin> set (py ''/r demain 14h '')" by (simp add: str_eval)
  have 2: "bar \<in> set (py '' a | b '')" by (simp add: str_eval)
  have 3: "py ''/r demain 14h | a | b '' = py ''/r demain 14h '' @ bar # py '' a | b ''"
    by (simp add: str_eval)
  have 4: "command_text (py ''/r demain 14h '') = py ''demain 14h''" by (simp add: str_eval)
  have 5: "strip (py '' a | b '') = py ''a | b''" by (simp add: str_eval)
  have 6: "stub_parse (py ''demain 14h'') = Some demain_14h" by (simp add: stub_parse_def)
  show ?thesis
    using first_separator_only [where ?'e = unit and a = "py ''/r demain 14h ''" and b = "py '' a | b ''"
        and dateparser_parse = stub_parse and search_dates = stub_search, OF 1 2] 1 2
    by (simp add: 3 4 5 6 astimezone_utc_def demain_14h_def)
qed

section \<open>Both formats\<close>

text \<open>
  Claim C5. Whenever the parse succeeds, in the explicit format or in the fallback, the
  instant returned is on the UTC clock (its offset is zero), and it is the instant the
  parser or the search gave for the matched phrase, converted.
\<close>

theorem trigger_is_utc:
  assumes "parse_when_and_message dateparser_parse search_dates raw = Inr (when_utc, human_when, msg)"
  shows "utcoffset when_utc = 0
         \<and> (\<exists>dt. (dateparser_parse human_when = Some dt
                    \<or> (\<exists>rest. search_dates (command_text raw) = Some ((human_when, dt) # rest)))
                 \<and> when_utc = astimezone_utc dt \<and> instant when_utc = instant dt)"
proof (cases "bar \<in> set raw")
  case True
  then obtain a b where ab: "raw = a @ bar # b" "bar \<notin> set a"
    by (meson split_list_first)
  show ?thesis
    using assms unfolding ab(1) explicit_mode [OF ab(2)]
    by (auto simp: astimezone_utc_def instant_def split: if_splits option.splits)
next
  case False
  show ?thesis
    using assms unfolding fallback_mode [OF False]
    by (auto simp: astimezone_utc_def instant_def split: option.splits list.splits)
qed

theorem trigger_is_utc_witness:
  "(parse_when_and_message stub_parse stub_search (py ''/r demain 14h | appeler'')
      :: unit exn + _) = Inr (\<lparr>wall = 1762434000000000, utcoffset = 0\<rparr>, py ''demain 14h'', py ''appeler'')
   \<and> utcoffset \<lparr>wall = 1762434000000000, utcoffset = 0\<rparr> = 0
   \<and> instant \<lparr>wall = 1762434000000000, utcoffset = 0\<rparr> = instant demain_14h
   \<and> (parse_when_and_message stub_parse stub_search (py ''appeler le garage, demain 14h'')
      :: unit exn + _) = Inr (\<lparr>wall = 1762434000000000, utcoffset = 0\<rparr>, py ''demain 14h'', py ''appeler le garage'')"
proof -
  have 1: "(parse_when_and_message stub_parse stub_search (py ''/r demain 14h | appeler'')
      :: unit exn + _) = Inr (\<lparr>wall = 1762434000000000, utcoffset = 0\<rparr>, py ''demain 14h'', py ''appeler'')"
    by (simp add: parse_when_and_message_def str_eval stub_parse_def astimezone_utc_def demain_14h_def)
  have 2: "(parse_when_and_message stub_parse stub_search (py ''appeler le garage, demain 14h'')
      :: unit exn + _) = Inr (\<lparr>wall = 1762434000000000, utcoffset = 0\<rparr>, py ''demain 14h'', py ''appeler le garage'')"
    by (simp add: parse_when_and_message_def str_eval stub_search_def astimezone_utc_def demain_14h_def)
  show ?thesis
    using trigger_is_utc [OF 1] trigger_is_utc [OF 2] 1 2
    by (simp add: instant_def demain_14h_def)
qed

section \<open>The fallback\<close>

text \<open>
  The claim C3 names the placeholder "Reminder". On the input \<^verbatim>\<open>/r demain 14h\<close> nothing is
  left once the phrase is removed, and the message returned is \<^verbatim>\<open>Rappel\<close>.
\<close>

theorem fallback_message_counterexample:
  "bar \<notin> set (py ''/r demain 14h'')
   \<and> stub_search (command_text (py ''/r demain 14h'')) = Some [(py ''demain 14h'', demain_14h)]
   \<and> strip_by trim_char (replace_empty (py ''demain 14h'') (command_text (py ''/r demain 14h''))) = []
   \<and> (parse_when_and_message stub_parse stub_search (py ''/r demain 14h'') :: unit exn + _) =
       Inr (\<lparr>wall = 1762434000000000, utcoffset = 0\<rparr>, py ''demain 14h'', py ''Rappel'')
   \<and> py ''Rappel'' \<noteq> py ''Reminder''"
  by (simp add: parse_when_and_message_def str_eval stub_search_def astimezone_utc_def
      demain_14h_def)

text \<open>
  Claim C3, amended. For an input without separator in which the search finds at least
  one phrase, the parse succeeds with the first phrase found; the message is the text
  (the input without the command and the surrounding whitespace) with that phrase
  removed, wherever it occurs, and with spaces, commas, hyphens, dashes, colons and
  semicolons trimmed on both sides, and it is \<^verbatim>\<open>Rappel\<close> when nothing is left.
\<close>

theorem fallback_message:
  assumes "bar \<notin> set raw"
    and "search_dates (command_text raw) = Some ((match_text, dt) # rest)"
  shows "(parse_when_and_message dateparser_parse search_dates raw :: 'e exn + _) =
           Inr (astimezone_utc dt, match_text,
                if strip_by trim_char (replace_empty match_text (command_text raw)) = []
                then py ''Rappel''
                else strip_by trim_char (replace_empty match_text (command_text raw)))"
  using assms by (simp add: fallback_mode)

theorem fallback_message_witness:
  "bar \<notin> set (py ''/r appeler le garage, demain 14h'')
   \<and> stub_search (command_text (py ''/r appeler le garage, demain 14h'')) =
       Some [(py ''demain 14h'', demain_14h)]
   \<and> (parse_when_and_message stub_parse stub_search (py ''/r appeler le garage, demain 14h'')
        :: unit exn + _) =
       Inr (\<lparr>wall = 1762434000000000, utcoffset = 0\<rparr>, py ''demain 14h'', py ''appeler le garage'')
   \<and> bar \<notin> set (py ''/r demain 14h'')
   \<and> stub_search (command_text (py ''/r demain 14h'')) = Some [(py ''demain 14h'', demain_14h)]
   \<and> (parse_when_and_message stub_parse stub_search (py ''/r demain 14h'') :: unit exn + _) =
       Inr (\<lparr>wall = 1762434000000000, utcoffset = 0\<rparr>, py ''demain 14h'', py ''Rappel'')"
proof -
  have 1: "bar \<notin> set (py ''/r appeler le garage, demain 14h'')" by (simp add: str_eval)
  have 2: "stub_search (command_text (py ''/r appeler le garage, demain 14h'')) =
       Some [(py ''demain 14h'', demain_14h)]"
    by (simp add: str_eval stub_search_def)
  have 3: "command_text (py ''/r appeler le garage, demain 14h'') = py ''appeler le garage, demain 14h''"
    by (simp add: str_eval)
  have 4: "strip_by trim_char (replace_empty (py ''demain 14h'') (py ''appeler le garage, demain 14h''))
         = py ''appeler le garage''"
    by (simp add: str_eval)
  have 5: "bar \<notin> set (py ''/r demain 14h'')" by (simp add: str_eval)
  have 6: "stub_search (command_text (py ''/r demain 14h'')) = Some [(py ''demain 14h'', demain_14h)]"
    by (simp add: str_eval stub_search_def)
  have 7: "command_text (py ''/r demain 14h'') = py ''demain 14h''"
    by (simp add: str_eval)
  have 8: "strip_by trim_char (replace_empty (py ''demain 14h'') (py ''demain 14h'')) = []"
    by (simp add: str_eval)
  show ?thesis
    using fallback_message [where ?'e = unit and dateparser_parse = stub_parse
        and search_dates = stub_search and raw = "py ''/r appeler le garage, demain 14h''"
        and match_text = "py ''demain 14h''" and dt = demain_14h and rest = "[]"]
      fallback_message [where ?'e = unit and dateparser_parse = stub_parse
        and search_dates = stub_search and raw = "py ''/r demain 14h''"
        and match_text = "py ''demain 14h''" and dt = demain_14h and rest = "[]"] 1 2 5 6
    by (simp add: 3 4 7 8 astimezone_utc_def demain_14h_def) (simp add: py_def)
qed

text \<open>
  The claim C6 says that an input with a separator and an unparseable phrase before it
  fails with the unparseable-time error. On \<^verbatim>\<open>/r banana |\<close> the message is empty, the
  check of the message comes first, and the error is "Message vide.".
\<close>

theorem unparseable_time_counterexample:
  "bar \<in> set (py ''/r banana |'')
   \<and> stub_parse (command_text (py ''/r banana '')) = None
   \<and> (parse_when_and_message stub_parse stub_search (py ''/r banana |'') :: unit exn + _) =
       Inl (ValueError msg_vide)
   \<and> msg_vide \<noteq> non_comprise"
  by (simp add: parse_when_and_message_def str_eval stub_parse_def msg_vide_def non_comprise_def)

text \<open>
  Claim C6, amended. For an input with a separator the result does not depend on the
  search, which is never consulted; if moreover the message after the first separator is
  not blank and the parser rejects the phrase before it, the parse fails with
  "Date/heure non comprise." and does not fall back. For an input without separator the
  first phrase the search found is the one returned.
\<close>

theorem fallback_only_without_separator:
  "(bar \<in> set raw \<longrightarrow>
      (parse_when_and_message dateparser_parse search_dates raw :: 'e exn + _) =
        parse_when_and_message dateparser_parse search_dates' raw)
   \<and> (bar \<notin> set a \<and> strip b \<noteq> [] \<and> dateparser_parse (command_text a) = None \<longrightarrow>
      (parse_when_and_message dateparser_parse search_dates (a @ bar # b) :: 'e exn + _) =
        Inl (ValueError non_comprise))
   \<and> (bar \<notin> set raw' \<and> search_dates (command_text raw') = Some ((match_text, dt) # rest) \<longrightarrow>
      (\<exists>msg. (parse_when_and_message dateparser_parse search_dates raw' :: 'e exn + _) =
        Inr (astimezone_utc dt, match_text, msg)))"
proof (intro conjI impI)
  assume "bar \<in> set raw"
  then obtain a1 b1 where ab: "raw = a1 @ bar # b1" "bar \<notin> set a1"
    by (meson split_list_first)
  show "(parse_when_and_message dateparser_parse search_dates raw :: 'e exn + _) =
        parse_when_and_message dateparser_parse search_dates' raw"
    unfolding ab(1) explicit_mode [OF ab(2)] ..
next
  assume "bar \<notin> set a \<and> strip b \<noteq> [] \<and> dateparser_parse (command_text a) = None"
  then show "(parse_when_and_message dateparser_parse search_dates (a @ bar # b) :: 'e exn + _) =
        Inl (ValueError non_comprise)"
    by (simp add: explicit_mode)
next
  assume "bar \<notin> set raw' \<and> search_dates (command_text raw') = Some ((match_text, dt) # rest)"
  then show "\<exists>msg. (parse_when_and_message dateparser_parse search_dates raw' :: 'e exn + _) =
        Inr (astimezone_utc dt, match_text, msg)"
    by (simp add: fallback_mode)
qed

theorem fallback_only_without_separator_witness:
  "bar \<in> set (py ''/r banana | eat it'')
   \<and> (parse_when_and_message stub_parse stub_search (py ''/r banana | eat it'') :: unit exn + _) =
        parse_when_and_message stub_parse no_search (py ''/r banana | eat it'')
   \<and> bar \<notin> set (py ''/r banana '') \<and> strip (py '' eat it'') \<noteq> []
   \<and> stub_parse (command_text (py ''/r banana '')) = None
   \<and> (parse_when_and_message stub_parse stub_search (py ''/r banana '' @ bar # py '' eat it'')
        :: unit exn + _) = Inl (ValueError non_comprise)
   \<and> bar \<notin> set (py ''demain 14h ou lundi 9h: payer'')
   \<and> stub_search (command_text (py ''demain 14h ou lundi 9h: payer'')) =
        Some [(py ''demain 14h'', demain_14h), (py ''lundi 9h'', lundi_9h)]
   \<and> (\<exists>msg. (parse_when_and_message stub_parse stub_search (py ''demain 14h ou lundi 9h: payer'')
        :: unit exn + _) = Inr (astimezone_utc demain_14h, py ''demain 14h'', msg))"
proof -
  have 1: "bar \<in> set (py ''/r banana | eat it'')" by (simp add: str_eval)
  have 2: "bar \<notin> set (py ''/r banana '') \<and> strip (py '' eat it'') \<noteq> []
      \<and> stub_parse (command_text (py ''/r banana '')) = None"
    by (simp add: str_eval stub_parse_def)
  have 3: "bar \<notin> set (py ''demain 14h ou lundi 9h: payer'')
      \<and> stub_search (command_text (py ''demain 14h ou lundi 9h: payer'')) =
        Some ((py ''demain 14h'', demain_14h) # [(py ''lundi 9h'', lundi_9h)])"
    by (simp add: str_eval stub_search_def)
  show ?thesis
    using fallback_only_without_separator [where ?'e = unit
        and raw = "py ''/r banana | eat it''" and dateparser_parse = stub_parse
        and search_dates = stub_search and search_dates' = no_search
        and a = "py ''/r banana ''" and b = "py '' eat it''"
        and raw' = "py ''demain 14h ou lundi 9h: payer''" and match_text = "py ''demain 14h''"
        and dt = demain_14h and rest = "[(py ''lundi 9h'', lundi_9h)]"]
      1 2 3
    by simp
qed

section \<open>The float quotient and the five-second threshold\<close>

text \<open>
  The delay is a float, \<^verbatim>\<open>total_seconds()\<close> of an exact count of microseconds, and the
  test \<^verbatim>\<open>delay_seconds < 5\<close> compares that float. The lemmas below show that rounding
  never moves the quotient across 5: the test is the test on the microseconds.
\<close>

lemma rhe_ge:
  assumes "0 < d" and "c * d \<le> n"
  shows "c \<le> round_half_even n d"
proof -
  have "(c * d) div d \<le> n div d"
    using assms by (intro zdiv_mono1) auto
  then have "c \<le> n div d" using assms(1) by simp
  then show ?thesis
    by (auto simp: round_half_even_def Let_def)
qed

lemma rhe_le:
  assumes "0 < d" and "n \<le> c * d"
  shows "round_half_even n d \<le> c"
proof -
  have "n div d \<le> (c * d) div d"
    using assms by (intro zdiv_mono1) auto
  then have le: "n div d \<le> c" using assms(1) by simp
  show ?thesis
  proof (cases "n div d = c")
    case True
    have "n = d * (n div d) + n mod d" by simp
    with True have "n mod d = n - c * d" by (simp add: algebra_simps)
    with assms(2) have "n mod d \<le> 0" by simp
    moreover have "0 \<le> n mod d" using assms(1) by simp
    ultimately have "n mod d = 0" by simp
    with True assms(1) show ?thesis by (simp add: round_half_even_def Let_def)
  next
    case False
    with le have "n div d + 1 \<le> c" by simp
    then show ?thesis by (auto simp: round_half_even_def Let_def)
  qed
qed

lemma rhe_nonneg: "0 < d \<Longrightarrow> 0 \<le> n \<Longrightarrow> 0 \<le> round_half_even n d"
  using rhe_ge [of d 0 n] by simp

lemma bitlen_exp:
  assumes "0 < n"
  obtains l where "bitlen n = int l + 1" and "2 ^ l \<le> n" and "n < 2 * 2 ^ l"
proof -
  from assms have "bitlen n \<noteq> 0" by (simp add: bitlen_eq_zero_iff)
  with bitlen_nonneg [of n] have p: "1 \<le> bitlen n" by simp
  define l where "l = nat (bitlen n - 1)"
  from p have 1: "bitlen n = int l + 1" by (simp add: l_def)
  then have 2: "nat (bitlen n) = Suc l" by simp
  from bitlen_bounds [OF assms] have "2 ^ l \<le> n" "n < 2 ^ Suc l"
    unfolding l_def [symmetric] 2 by auto
  then show ?thesis using 1 that by simp
qed

lemma binade_bounds:
  assumes n: "0 < n" and d: "0 < d"
  shows "d * 2 ^ nat (binade n d) \<le> n * 2 ^ nat (- binade n d)
       \<and> n * 2 ^ nat (- binade n d) < 2 * d * 2 ^ nat (binade n d)"
proof -
  obtain l where l: "bitlen n = int l + 1" "2 ^ l \<le> n" "n < 2 * 2 ^ l"
    using n by (rule bitlen_exp)
  obtain m where m: "bitlen d = int m + 1" "2 ^ m \<le> d" "d < 2 * 2 ^ m"
    using d by (rule bitlen_exp)
  have s: "bitlen n - bitlen d = int l - int m" using l(1) m(1) by simp
  show ?thesis
  proof (cases "m \<le> l")
    case True
    then obtain t where t: "l = m + t" using le_Suc_ex by blast
    define A :: int where "A = 2 ^ m"
    define T :: int where "T = 2 ^ t"
    have AT: "0 < A" "0 < T" by (simp_all add: A_def T_def)
    have nb: "A * T \<le> n" "n < 2 * (A * T)"
      using l(2,3) by (simp_all add: t A_def T_def power_add)
    have db: "A \<le> d" "d < 2 * A" using m(2,3) by (simp_all add: A_def)
    have s': "bitlen n - bitlen d = int t" using s t by simp
    show ?thesis
    proof (cases "d * T \<le> n")
      case True
      then have e: "binade n d = int t"
        by (simp add: binade_def s' T_def)
      have "A * T \<le> d * T" using db(1) AT by (simp add: mult_right_mono)
      with nb(2) have "n < 2 * (d * T)" by simp
      with True show ?thesis by (simp add: e T_def)
    next
      case False
      then have e: "binade n d = int t - 1"
        by (simp add: binade_def s' T_def)
      show ?thesis
      proof (cases t)
        case 0
        then have T1: "T = 1" by (simp add: T_def)
        from False T1 have "n < d" by simp
        moreover from nb(1) db(2) T1 have "d < 2 * n" by simp
        ultimately show ?thesis using e 0 by simp
      next
        case (Suc t')
        define T' :: int where "T' = 2 ^ t'"
        have TT: "T = 2 * T'" "0 < T'" by (simp_all add: T_def T'_def Suc)
        have "d * T' < (2 * A) * T'" using db(2) TT(2) by (simp add: mult_strict_right_mono)
        with nb(1) TT(1) have 1: "d * T' \<le> n" by (simp add: algebra_simps)
        from False TT(1) have 2: "n < 2 * d * T'" by (simp add: algebra_simps)
        have "nat (int t - 1) = t'" "nat (- (int t - 1)) = 0" using Suc by simp_all
        with 1 2 show ?thesis by (simp add: e T'_def)
      qed
    qed
  next
    case False
    then obtain t where t: "m = l + Suc t"
      by (metis add_Suc_right less_imp_Suc_add not_le)
    define A :: int where "A = 2 ^ l"
    define T :: int where "T = 2 ^ t"
    have AT: "0 < A" "0 < T" by (simp_all add: A_def T_def)
    have nb: "A \<le> n" "n < 2 * A" using l(2,3) by (simp_all add: A_def)
    have db: "2 * (A * T) \<le> d" "d < 4 * (A * T)"
      using m(2,3) by (simp_all add: t A_def T_def power_add)
    have s': "bitlen n - bitlen d = - int (Suc t)" using s t by simp
    have ns: "nat (- int (Suc t)) = 0" "nat (- (- int (Suc t))) = Suc t" by simp_all
    show ?thesis
    proof (cases "d \<le> n * (2 * T)")
      case True
      then have e: "binade n d = - int (Suc t)"
        by (simp add: binade_def s' T_def del: of_nat_Suc)
      have "n * (2 * T) < (2 * A) * (2 * T)"
        using nb(2) AT by (intro mult_strict_right_mono) simp_all
      with db(1) have "n * (2 * T) < 2 * d" by (simp add: algebra_simps)
      with True show ?thesis
        unfolding e ns by (simp add: T_def)
    next
      case False
      then have e: "binade n d = - int (Suc t) - 1"
        by (simp add: binade_def s' T_def del: of_nat_Suc)
      have ns': "nat (- int (Suc t) - 1) = 0" "nat (- (- int (Suc t) - 1)) = Suc (Suc t)"
        by simp_all
      have "A * (4 * T) \<le> n * (4 * T)"
        using nb(1) AT by (intro mult_right_mono) simp_all
      with db(2) have 1: "d \<le> n * (4 * T)" by (simp add: algebra_simps)
      from False have 2: "n * (4 * T) < 2 * d" by (simp add: algebra_simps)
      from 1 2 show ?thesis
        unfolding e ns' by (simp add: T_def)
    qed
  qed
qed

lemma significand_bounds:
  assumes n: "0 < n" and d: "0 < d"
  defines "k \<equiv> binade n d - 52"
  defines "m \<equiv> (if 0 \<le> k then round_half_even n (d * 2 ^ nat k)
                 else round_half_even (n * 2 ^ nat (- k)) d)"
  shows "2 ^ 52 \<le> m \<and> m \<le> 2 ^ 53"
proof -
  define e where "e = binade n d"
  have B: "d * 2 ^ nat e \<le> n * 2 ^ nat (- e)" "n * 2 ^ nat (- e) < 2 * d * 2 ^ nat e"
    using binade_bounds [OF n d] by (simp_all add: e_def)
  have k: "k = e - 52" by (simp add: k_def e_def)
  show ?thesis
  proof (cases "0 \<le> k")
    case True
    then have "nat e = nat k + 52" "nat (- e) = 0" using k by simp_all
    with B have b: "d * 2 ^ nat k * 2 ^ 52 \<le> n" "n < 2 * (d * 2 ^ nat k * 2 ^ 52)"
      by (simp_all add: power_add algebra_simps)
    have pos: "0 < d * 2 ^ nat k" using d by simp
    have "2 ^ 52 \<le> round_half_even n (d * 2 ^ nat k)"
      using b(1) by (intro rhe_ge [OF pos]) (simp add: algebra_simps)
    moreover have "round_half_even n (d * 2 ^ nat k) \<le> 2 ^ 53"
      using b(2) by (intro rhe_le [OF pos]) (simp add: algebra_simps)
    ultimately show ?thesis using True by (simp add: m_def)
  next
    case False
    have "2 ^ 52 * d \<le> n * 2 ^ nat (- k) \<and> n * 2 ^ nat (- k) \<le> 2 ^ 53 * d"
    proof (cases "0 \<le> e")
      case True
      with False k have "nat (- k) + nat e = 52" "nat (- e) = 0" by simp_all
      then have pq': "(2::int) ^ nat (- k) * 2 ^ nat e = 2 ^ 52"
        by (metis power_add)
      define P :: int where "P = 2 ^ nat (- k)"
      define Q :: int where "Q = 2 ^ nat e"
      have pq: "Q * P = 2 ^ 52" "0 < P" using pq' by (simp_all add: P_def Q_def mult.commute)
      from B \<open>nat (- e) = 0\<close> have b: "d * Q \<le> n" "n < 2 * d * Q" by (simp_all add: Q_def)
      have "(d * Q) * P \<le> n * P"
        using b(1) pq(2) by (intro mult_right_mono) simp_all
      then have "d * (Q * P) \<le> n * P" by (simp only: mult.assoc)
      then have 1: "d * 2 ^ 52 \<le> n * 2 ^ nat (- k)"
        unfolding pq(1) by (simp only: P_def)
      have "n * P \<le> (2 * d * Q) * P"
        using b(2) pq(2) by (intro mult_right_mono) simp_all
      then have "n * P \<le> 2 * d * (Q * P)" by (simp only: mult.assoc)
      then have 2: "n * 2 ^ nat (- k) \<le> 2 * d * 2 ^ 52"
        unfolding pq(1) by (simp only: P_def)
      from 1 2 show ?thesis by (simp add: algebra_simps)
    next
      case False
      then have "nat (- k) = 52 + nat (- e)" "nat e = 0" using k by simp_all
      then have p: "(2::int) ^ nat (- k) = 2 ^ 52 * 2 ^ nat (- e)" by (simp add: power_add)
      from B \<open>nat e = 0\<close> have b: "d \<le> n * 2 ^ nat (- e)" "n * 2 ^ nat (- e) < 2 * d" by simp_all
      from b show ?thesis unfolding p by (simp add: algebra_simps)
    qed
    then have "2 ^ 52 \<le> round_half_even (n * 2 ^ nat (- k)) d"
      "round_half_even (n * 2 ^ nat (- k)) d \<le> 2 ^ 53"
      using rhe_ge [OF d] rhe_le [OF d] by blast+
    then show ?thesis using False by (simp add: m_def)
  qed
qed

lemma truediv_pos:
  assumes "0 < n"
  shows "truediv n d =
     of_int (if 0 \<le> binade n d - 52 then round_half_even n (d * 2 ^ nat (binade n d - 52))
             else round_half_even (n * 2 ^ nat (- (binade n d - 52))) d)
       * (if 0 \<le> binade n d - 52 then 2 ^ nat (binade n d - 52)
          else 1 / 2 ^ nat (- (binade n d - 52)))"
  using assms by (simp add: truediv_def Let_def)

lemma truediv_neg:
  assumes "n < 0" and "0 < d"
  shows "truediv n d \<le> 0"
proof -
  define k where "k = binade \<bar>n\<bar> d - 52"
  define m where "m = (if 0 \<le> k then round_half_even \<bar>n\<bar> (d * 2 ^ nat k)
                 else round_half_even (\<bar>n\<bar> * 2 ^ nat (- k)) d)"
  from assms have "0 < \<bar>n\<bar>" by simp
  then have "2 ^ 52 \<le> m \<and> m \<le> 2 ^ 53"
    unfolding m_def k_def using assms(2) by (rule significand_bounds)
  then have m: "0 \<le> m" by simp
  have sc: "(0::rat) \<le> (if 0 \<le> k then 2 ^ nat k else 1 / 2 ^ nat (- k))" by simp
  have "truediv n d = - (of_int m * (if 0 \<le> k then 2 ^ nat k else 1 / 2 ^ nat (- k)))"
    using assms(1) by (simp add: truediv_def Let_def m_def k_def)
  moreover have "(0::rat) \<le> of_int m * (if 0 \<le> k then 2 ^ nat k else 1 / 2 ^ nat (- k))"
    using m sc by (intro mult_nonneg_nonneg) simp_all
  ultimately show ?thesis by simp
qed

lemma truediv_less_5: "truediv n 1000000 < 5 \<longleftrightarrow> n < 5000000"
proof -
  consider "n = 0" | "n < 0" | "0 < n" by linarith
  then show ?thesis
  proof cases
    case 1
    then show ?thesis by (simp add: truediv_def)
  next
    case 2
    with truediv_neg [of n 1000000] show ?thesis by simp
  next
    case 3
    define e where "e = binade n 1000000"
    define k where "k = e - 52"
    define m where "m = (if 0 \<le> k then round_half_even n (1000000 * 2 ^ nat k)
                 else round_half_even (n * 2 ^ nat (- k)) 1000000)"
    have B: "1000000 * 2 ^ nat e \<le> n * 2 ^ nat (- e)"
      "n * 2 ^ nat (- e) < 2 * 1000000 * 2 ^ nat e"
      using binade_bounds [OF 3, of 1000000] by (simp_all add: e_def)
    have "2 ^ 52 \<le> m \<and> m \<le> 2 ^ 53"
      unfolding m_def k_def e_def by (rule significand_bounds [OF 3]) simp
    then have S: "2 ^ 52 \<le> m" "m \<le> 2 ^ 53" by simp_all
    have v: "truediv n 1000000 = of_int m * (if 0 \<le> k then 2 ^ nat k else 1 / 2 ^ nat (- k))"
      unfolding m_def k_def e_def by (rule truediv_pos [OF 3])
    consider "3 \<le> e" | "e = 2" | "e \<le> 1" by linarith
    then show ?thesis
    proof cases
      case 1
      then have ne: "nat (- e) = 0" by simp
      from 1 have "3 \<le> nat e" by simp
      then have "(2::int) ^ 3 \<le> 2 ^ nat e" by (intro power_increasing) simp_all
      then have "1000000 * (8::int) \<le> 1000000 * 2 ^ nat e" by simp
      with B(1) ne have big: "8000000 \<le> n" by simp
      have "5 \<le> truediv n 1000000"
      proof (cases "0 \<le> k")
        case True
        have "(1::int) \<le> 2 ^ nat k" by simp
        with S(1) have "2 ^ 52 * 1 \<le> m * 2 ^ nat k"
          by (intro mult_mono) simp_all
        then have "5 \<le> m * 2 ^ nat k" by simp
        then have "(5::rat) \<le> of_int (m * 2 ^ nat k)" by linarith
        then show ?thesis using True by (simp add: v)
      next
        case False
        with 1 have "nat (- k) \<le> 49" by (simp add: k_def)
        then have "(2::int) ^ nat (- k) \<le> 2 ^ 49" by (intro power_increasing) simp_all
        with S(1) have "5 * 2 ^ nat (- k) \<le> m" by simp
        then have "(of_int (5 * 2 ^ nat (- k)) :: rat) \<le> of_int m" by (simp only: of_int_le_iff)
        then have "(5::rat) * 2 ^ nat (- k) \<le> of_int m" by simp
        then have "(5::rat) \<le> of_int m / 2 ^ nat (- k)" by (simp add: pos_le_divide_eq)
        then show ?thesis using False by (simp add: v)
      qed
      with big show ?thesis by simp
    next
      case 2
      then have k50: "k = - 50" by (simp add: k_def)
      then have m50: "m = round_half_even (n * 2 ^ 50) 1000000" by (simp add: m_def)
      have v50: "truediv n 1000000 = of_int m / 2 ^ 50" using k50 by (simp add: v)
      show ?thesis
      proof (cases "n < 5000000")
        case True
        then have "n * 2 ^ 50 \<le> (5 * 2 ^ 50 - 1) * 1000000" by simp
        then have "m \<le> 5 * 2 ^ 50 - 1" unfolding m50 by (intro rhe_le) simp_all
        then have "m < 5 * 2 ^ 50" by simp
        then have "(of_int m :: rat) < of_int (5 * 2 ^ 50)" by (simp only: of_int_less_iff)
        then have "(of_int m :: rat) / 2 ^ 50 < 5" by (simp add: pos_divide_less_eq)
        with True show ?thesis by (simp add: v50)
      next
        case False
        then have "(5 * 2 ^ 50) * 1000000 \<le> n * 2 ^ 50" by simp
        then have "5 * 2 ^ 50 \<le> m" unfolding m50 by (intro rhe_ge) simp_all
        then have "(of_int (5 * 2 ^ 50) :: rat) \<le> of_int m" by (simp only: of_int_le_iff)
        then have "(5::rat) \<le> of_int m / 2 ^ 50" by (simp add: pos_le_divide_eq)
        with False show ?thesis by (simp add: v50)
      qed
    next
      case 3
      have "(2::int) ^ nat e \<le> 2 ^ 1"
        using 3 by (intro power_increasing) simp_all
      then have "2 * 1000000 * 2 ^ nat e \<le> (4000000::int)" by simp
      moreover have "n * 1 \<le> n * 2 ^ nat (- e)"
        using \<open>0 < n\<close> by (intro mult_left_mono) simp_all
      ultimately have small: "n < 4000000" using B(2) by simp
      from 3 have kneg: "\<not> 0 \<le> k" "51 \<le> nat (- k)" by (simp_all add: k_def)
      then have "(2::int) ^ 51 \<le> 2 ^ nat (- k)" by (intro power_increasing) simp_all
      with S(2) have "m < 5 * 2 ^ nat (- k)" by simp
      then have "(of_int m :: rat) < of_int (5 * 2 ^ nat (- k))" by (simp only: of_int_less_iff)
      then have "(of_int m :: rat) < 5 * 2 ^ nat (- k)" by simp
      then have "(of_int m :: rat) / 2 ^ nat (- k) < 5" by (simp add: pos_divide_less_eq)
      then have "truediv n 1000000 < 5" using kneg(1) by (simp add: v)
      with small show ?thesis by simp
    qed
  qed
qed

lemma total_seconds_less_5: "total_seconds us < 5 \<longleftrightarrow> us < 5000000"
  by (simp add: total_seconds_def truediv_less_5)

section \<open>The command handler\<close>

lemma dt_sub_instant: "dt_sub a b = instant a - instant b"
  by (simp add: dt_sub_def instant_def)

lemma r_cmd_try_parsed:
  assumes "(parse_when_and_message dateparser_parse search_dates raw :: 'e exn + _)
             = Inr (when_utc, human_when, msg)"
  shows "r_cmd_try (run_once :: ('q, 'e) timer) confirm dateparser_parse search_dates now_utc
           chat_id raw q =
     (if instant when_utc - instant now_utc < 5000000 then (q, Inl (ValueError trop_proche))
      else
        (case run_once q
                (reminder_job chat_id when_utc
                   (total_seconds (instant when_utc - instant now_utc)) msg) of
           Inl e \<Rightarrow> (q, Inl (TimerError e))
         | Inr q' \<Rightarrow>
             (case confirm human_when when_utc msg of
                Some e \<Rightarrow> (q', Inl (ConfirmError e))
              | None \<Rightarrow> (q', Inr (Confirmation human_when when_utc msg)))))"
  using assms
  by (simp add: r_cmd_try_def Let_def dt_sub_instant total_seconds_less_5)

lemma r_cmd_try_unparsed:
  assumes "(parse_when_and_message dateparser_parse search_dates raw :: 'e exn + _) = Inl e"
  shows "r_cmd_try (run_once :: ('q, 'e) timer) confirm dateparser_parse search_dates now_utc
           chat_id raw q = (q, Inl e)"
  using assms by (simp add: r_cmd_try_def)

lemma parse_raises_value_error:
  assumes "(parse_when_and_message dateparser_parse search_dates raw :: 'e exn + _) = Inl x"
  shows "\<exists>err. x = ValueError err"
  using assms
  by (auto simp: parse_when_and_message_def Let_def
      split: list.splits option.splits if_splits prod.splits)

text \<open>
  Claim C1. Once the parse has succeeded, the block raises the \<^verbatim>\<open>ValueError\<close> of
  message \<open>trop_proche\<close> (the validation error) exactly when the trigger instant is less
  than 5 seconds, that is 5000000 microseconds, after \<open>now\<close>, negative differences
  included. From exactly 5 seconds on the validation passes: the job goes to the timer,
  and the block ends with the timer's exception, or with the job registered and the
  exception of lines 106 and 107, or with the job registered and the confirmation sent.
\<close>

theorem too_soon_threshold:
  assumes "(parse_when_and_message dateparser_parse search_dates raw :: 'e exn + _)
             = Inr (when_utc, human_when, msg)"
  shows "(snd (r_cmd_try (run_once :: ('q, 'e) timer) confirm dateparser_parse search_dates
                 now_utc chat_id raw q) = Inl (ValueError trop_proche)
          \<longleftrightarrow> instant when_utc - instant now_utc < 5000000)
       \<and> (5000000 \<le> instant when_utc - instant now_utc \<longrightarrow>
           r_cmd_try run_once confirm dateparser_parse search_dates now_utc chat_id raw q =
             (case run_once q
                     (reminder_job chat_id when_utc
                        (total_seconds (instant when_utc - instant now_utc)) msg) of
                Inl e \<Rightarrow> (q, Inl (TimerError e))
              | Inr q' \<Rightarrow>
                  (case confirm human_when when_utc msg of
                     Some e \<Rightarrow> (q', Inl (ConfirmError e))
                   | None \<Rightarrow> (q', Inr (Confirmation human_when when_utc msg)))))"
  unfolding r_cmd_try_parsed [OF assms]
  by (auto split: sum.splits option.splits)

lemma parse_demain:
  "(parse_when_and_message stub_parse stub_search (py ''/r demain 14h | appeler'') :: 'e exn + _)
     = Inr (\<lparr>wall = 1762434000000000, utcoffset = 0\<rparr>, py ''demain 14h'', py ''appeler'')"
  by (simp add: parse_when_and_message_def str_eval stub_parse_def astimezone_utc_def
      demain_14h_def)

lemma parse_banana:
  "(parse_when_and_message stub_parse stub_search (py ''/r banana | eat it'') :: 'e exn + _)
     = Inl (ValueError non_comprise)"
  by (simp add: parse_when_and_message_def str_eval stub_parse_def)

theorem too_soon_threshold_witness:
  "snd (r_cmd_try accepting_timer delivering stub_parse stub_search
          \<lparr>wall = 1762433995001000, utcoffset = 0\<rparr> 42 (py ''/r demain 14h | appeler'') [])
     = Inl (ValueError trop_proche)
   \<and> snd (r_cmd_try accepting_timer delivering stub_parse stub_search
          \<lparr>wall = 1762434000000001, utcoffset = 0\<rparr> 42 (py ''/r demain 14h | appeler'') [])
     = Inl (ValueError trop_proche)
   \<and> r_cmd_try accepting_timer delivering stub_parse stub_search
        \<lparr>wall = 1762433995000000, utcoffset = 0\<rparr> 42 (py ''/r demain 14h | appeler'') [] =
       ([reminder_job 42 \<lparr>wall = 1762434000000000, utcoffset = 0\<rparr> (total_seconds 5000000)
               (py ''appeler'')],
        Inr (Confirmation (py ''demain 14h'') \<lparr>wall = 1762434000000000, utcoffset = 0\<rparr>
              (py ''appeler'')))
   \<and> r_cmd_try accepting_timer overflowing stub_parse stub_search
        \<lparr>wall = 1762433995000000, utcoffset = 0\<rparr> 42 (py ''/r demain 14h | appeler'') [] =
       ([reminder_job 42 \<lparr>wall = 1762434000000000, utcoffset = 0\<rparr> (total_seconds 5000000)
               (py ''appeler'')],
        Inl (ConfirmError ()))"
  using
    too_soon_threshold [OF parse_demain, where run_once = accepting_timer and confirm = delivering
      and now_utc = "\<lparr>wall = 1762433995001000, utcoffset = 0\<rparr>" and chat_id = 42 and q = "[]"]
    too_soon_threshold [OF parse_demain, where run_once = accepting_timer and confirm = delivering
      and now_utc = "\<lparr>wall = 1762434000000001, utcoffset = 0\<rparr>" and chat_id = 42 and q = "[]"]
    too_soon_threshold [OF parse_demain, where run_once = accepting_timer and confirm = delivering
      and now_utc = "\<lparr>wall = 1762433995000000, utcoffset = 0\<rparr>" and chat_id = 42 and q = "[]"]
    too_soon_threshold [OF parse_demain, where run_once = accepting_timer and confirm = overflowing
      and now_utc = "\<lparr>wall = 1762433995000000, utcoffset = 0\<rparr>" and chat_id = 42 and q = "[]"]
  by (simp add: instant_def accepting_timer_def delivering_def overflowing_def)

text \<open>
  Claim C8. When the block ends with a job registered, whether the confirmation was then
  sent or lines 106 and 107 raised, the timer was given a job whose delay is at least 5
  seconds, and the timer's own answer is the new state. When the parse or the validation
  fails, the state is unchanged and the result is the same with any other timer and any
  other confirmation: neither is called.
\<close>

theorem registered_delay_at_least_5:
  "(r_cmd_try (run_once :: ('q, 'e) timer) confirm dateparser_parse search_dates now_utc chat_id
        raw q = (q', Inr confirmation) \<longrightarrow>
      (\<exists>when_utc human_when msg.
         (parse_when_and_message dateparser_parse search_dates raw :: 'e exn + _)
           = Inr (when_utc, human_when, msg)
         \<and> run_once q (reminder_job chat_id when_utc (total_seconds (dt_sub when_utc now_utc)) msg)
             = Inr q'
         \<and> 5 \<le> job_when (reminder_job chat_id when_utc (total_seconds (dt_sub when_utc now_utc)) msg)
         \<and> 5000000 \<le> instant when_utc - instant now_utc))
   \<and> (r_cmd_try run_once confirm dateparser_parse search_dates now_utc chat_id raw q
        = (q', Inl (ConfirmError e)) \<longrightarrow>
      (\<exists>when_utc human_when msg.
         (parse_when_and_message dateparser_parse search_dates raw :: 'e exn + _)
           = Inr (when_utc, human_when, msg)
         \<and> run_once q (reminder_job chat_id when_utc (total_seconds (dt_sub when_utc now_utc)) msg)
             = Inr q'
         \<and> 5 \<le> job_when (reminder_job chat_id when_utc (total_seconds (dt_sub when_utc now_utc)) msg)
         \<and> 5000000 \<le> instant when_utc - instant now_utc))
   \<and> (snd (r_cmd_try run_once confirm dateparser_parse search_dates now_utc chat_id raw q)
        = Inl (ValueError err) \<longrightarrow>
      r_cmd run_once confirm dateparser_parse search_dates now_utc chat_id raw q = (q, PasCompris)
      \<and> r_cmd_try (run_once' :: ('q, 'e) timer) confirm' dateparser_parse search_dates now_utc
            chat_id raw q = (q, Inl (ValueError err)))"
proof (cases "parse_when_and_message dateparser_parse search_dates raw :: 'e exn + _")
  case (Inl x)
  then show ?thesis
    using parse_raises_value_error [OF Inl]
    by (auto simp: r_cmd_def r_cmd_try_unparsed)
next
  case (Inr r)
  then obtain when_utc human_when msg where
    "(parse_when_and_message dateparser_parse search_dates raw :: 'e exn + _)
       = Inr (when_utc, human_when, msg)"
    by (cases r) auto
  then show ?thesis
    by (auto simp: r_cmd_def r_cmd_try_parsed reminder_job_def dt_sub_instant
        total_seconds_less_5 not_less [symmetric] split: sum.splits if_splits option.splits)
qed


theorem registered_delay_at_least_5_witness:
  "r_cmd_try accepting_timer delivering stub_parse stub_search now_10h 42
       (py ''/r demain 14h | appeler'') []
     = ([reminder_job 42 \<lparr>wall = 1762434000000000, utcoffset = 0\<rparr>
               (total_seconds 97200000000) (py ''appeler'')],
        Inr (Confirmation (py ''demain 14h'') \<lparr>wall = 1762434000000000, utcoffset = 0\<rparr>
              (py ''appeler'')))
   \<and> r_cmd_try accepting_timer overflowing stub_parse stub_search now_10h 42
       (py ''/r demain 14h | appeler'') []
     = ([reminder_job 42 \<lparr>wall = 1762434000000000, utcoffset = 0\<rparr>
               (total_seconds 97200000000) (py ''appeler'')],
        Inl (ConfirmError ()))
   \<and> (\<exists>when_utc human_when msg.
         (parse_when_and_message stub_parse stub_search (py ''/r demain 14h | appeler'')
            :: unit exn + _) = Inr (when_utc, human_when, msg)
         \<and> accepting_timer []
              (reminder_job 42 when_utc (total_seconds (dt_sub when_utc now_10h)) msg)
            = Inr [reminder_job 42 \<lparr>wall = 1762434000000000, utcoffset = 0\<rparr>
               (total_seconds 97200000000) (py ''appeler'')]
         \<and> 5 \<le> job_when (reminder_job 42 when_utc (total_seconds (dt_sub when_utc now_10h)) msg)
         \<and> 5000000 \<le> instant when_utc - instant now_10h)
   \<and> snd (r_cmd_try accepting_timer delivering stub_parse stub_search now_10h 42
            (py ''/r banana | eat it'') [])
     = Inl (ValueError non_comprise)
   \<and> r_cmd accepting_timer delivering stub_parse stub_search now_10h 42
        (py ''/r banana | eat it'') []
     = ([], PasCompris)
   \<and> r_cmd_try refusing_timer overflowing stub_parse stub_search now_10h 42
        (py ''/r banana | eat it'') []
     = ([], Inl (ValueError non_comprise))"
proof -
  let ?J = "reminder_job 42 \<lparr>wall = 1762434000000000, utcoffset = 0\<rparr>
               (total_seconds 97200000000) (py ''appeler'')"
  let ?C = "Confirmation (py ''demain 14h'') \<lparr>wall = 1762434000000000, utcoffset = 0\<rparr>
              (py ''appeler'')"
  have 1: "r_cmd_try accepting_timer delivering stub_parse stub_search now_10h 42
      (py ''/r demain 14h | appeler'') [] = ([?J], Inr ?C)"
    by (simp add: r_cmd_try_parsed [OF parse_demain] instant_def now_10h_def accepting_timer_def
        delivering_def)
  have 5: "r_cmd_try accepting_timer overflowing stub_parse stub_search now_10h 42
      (py ''/r demain 14h | appeler'') [] = ([?J], Inl (ConfirmError ()))"
    by (simp add: r_cmd_try_parsed [OF parse_demain] instant_def now_10h_def accepting_timer_def
        overflowing_def)
  have 2: "snd (r_cmd_try accepting_timer delivering stub_parse stub_search now_10h 42
      (py ''/r banana | eat it'') []) = Inl (ValueError non_comprise)"
    by (simp add: r_cmd_try_unparsed [OF parse_banana])
  from registered_delay_at_least_5 [where run_once = accepting_timer and confirm = overflowing
      and dateparser_parse = stub_parse and search_dates = stub_search and now_utc = now_10h
      and chat_id = 42 and raw = "py ''/r demain 14h | appeler''" and q = "[]" and q' = "[?J]"
      and e = "()"] 5
  have 3: "\<exists>when_utc human_when msg.
         (parse_when_and_message stub_parse stub_search (py ''/r demain 14h | appeler'')
            :: unit exn + _) = Inr (when_utc, human_when, msg)
         \<and> accepting_timer []
              (reminder_job 42 when_utc (total_seconds (dt_sub when_utc now_10h)) msg)
            = Inr [?J]
         \<and> 5 \<le> job_when (reminder_job 42 when_utc (total_seconds (dt_sub when_utc now_10h)) msg)
         \<and> 5000000 \<le> instant when_utc - instant now_10h"
    by blast
  from registered_delay_at_least_5 [where run_once = accepting_timer and confirm = delivering
      and dateparser_parse = stub_parse and search_dates = stub_search and now_utc = now_10h
      and chat_id = 42 and raw = "py ''/r banana | eat it''" and q = "[]"
      and err = non_comprise and run_once' = refusing_timer and confirm' = overflowing] 2
  have 4: "r_cmd accepting_timer delivering stub_parse stub_search now_10h 42
         (py ''/r banana | eat it'') [] = ([], PasCompris)
     \<and> r_cmd_try refusing_timer overflowing stub_parse stub_search now_10h 42
         (py ''/r banana | eat it'') [] = ([], Inl (ValueError non_comprise))"
    by blast
  from 1 5 2 3 4 show ?thesis by blast
qed








end
